theory Spec2Isabelle
  imports Main
begin

section \<open>Slash-separated paths\<close>

text \<open>
  The daemon computes every storage location with \<^verbatim>\<open>filepath.Join\<close>, \<^verbatim>\<open>filepath.Dir\<close> and
  \<^verbatim>\<open>path.Join\<close> of the Go standard library. On the Unix systems the daemon runs on the
  separator is the slash, there is no volume name, and the two packages agree. The
  functions below follow the library's \<^verbatim>\<open>Clean\<close> loop: \<open>rest\<close> is the unread part of the
  path (the bytes from index \<open>r\<close> on), \<open>out\<close> is the written part of the buffer (its length
  is the index \<open>w\<close>), and \<open>dotdot\<close> is the index where a \<open>..\<close> element must stop.
\<close>

abbreviation Separator :: char where
  "Separator \<equiv> CHR ''/''"

text \<open>
  Backtracking over the last written element:
  \<^verbatim>\<open>for out.w > dotdot && !os.IsPathSeparator(out.index(out.w)) { out.w-- }\<close>
\<close>

fun backtrack :: "string \<Rightarrow> nat \<Rightarrow> nat \<Rightarrow> nat" where
  "backtrack buf dotdot w =
     (if w > dotdot \<and> buf ! w \<noteq> Separator then backtrack buf dotdot (w - 1) else w)"

declare backtrack.simps [simp del]

function clean_loop :: "bool \<Rightarrow> string \<Rightarrow> string \<Rightarrow> nat \<Rightarrow> string" where
  "clean_loop rooted [] out dotdot = out"
| "clean_loop rooted (c # cs) out dotdot =
     (if c = Separator then
        \<comment> \<open>empty path element\<close>
        clean_loop rooted cs out dotdot
      else if c = CHR ''.'' \<and> (cs = [] \<or> hd cs = Separator) then
        \<comment> \<open>. element\<close>
        clean_loop rooted cs out dotdot
      else if c = CHR ''.'' \<and> hd cs = CHR ''.'' \<and> (tl cs = [] \<or> hd (tl cs) = Separator) then
        \<comment> \<open>.. element: remove to last separator\<close>
        (if length out > dotdot then
           clean_loop rooted (tl cs) (take (backtrack out dotdot (length out - 1)) out) dotdot
         else if \<not> rooted then
           (let out' = (if length out > 0 then out @ [Separator] else out) @ ''..''
            in clean_loop rooted (tl cs) out' (length out'))
         else clean_loop rooted (tl cs) out dotdot)
      else
        \<comment> \<open>real path element: add slash if needed, copy element\<close>
        (let out' = (if rooted \<and> length out \<noteq> 1 \<or> \<not> rooted \<and> length out \<noteq> 0
                     then out @ [Separator] else out)
         in clean_loop rooted (dropWhile (\<lambda>x. x \<noteq> Separator) (c # cs))
              (out' @ takeWhile (\<lambda>x. x \<noteq> Separator) (c # cs)) dotdot))"
  by pat_completeness auto
termination
proof (relation "measure (\<lambda>(rooted, rest, out, dotdot). length rest)")
qed (auto simp: length_dropWhile_le le_imp_less_Suc)

declare clean_loop.simps [simp del]

definition Clean :: "string \<Rightarrow> string" where
  "Clean path =
     (if path = [] then ''.''
      else let rooted = (hd path = Separator);
               out = clean_loop rooted (if rooted then tl path else path)
                       (if rooted then [Separator] else []) (if rooted then 1 else 0)
           in if length out = 0 then ''.'' else out)"

text \<open>\<^verbatim>\<open>strings.Join(elem, "/")\<close>\<close>

fun joinSep :: "string list \<Rightarrow> string" where
  "joinSep [] = []"
| "joinSep [e] = e"
| "joinSep (e # es) = e @ [Separator] @ joinSep es"

text \<open>\<^verbatim>\<open>Join\<close> skips leading empty elements and cleans the slash-joined rest.\<close>

fun Join :: "string list \<Rightarrow> string" where
  "Join [] = []"
| "Join (e # es) = (if e \<noteq> [] then Clean (joinSep (e # es)) else Join es)"

text \<open>
  \<^verbatim>\<open>Dir\<close> cuts the path after its last separator (\<open>path[:i+1]\<close>, empty when there is
  none) and cleans what is left.
\<close>

definition dirPrefix :: "string \<Rightarrow> string" where
  "dirPrefix path = rev (dropWhile (\<lambda>x. x \<noteq> Separator) (rev path))"

definition Dir :: "string \<Rightarrow> string" where
  "Dir path = Clean (dirPrefix path)"

subsection \<open>Facts about the path functions\<close>

text \<open>
  Two facts carry the later proofs. A rooted path stays rooted under \<open>Clean\<close>, because a
  \<open>..\<close> element never backtracks over the leading slash. And \<open>Clean\<close> never writes
  more than it has read: a state is \<open>tight\<close> when the next element needs no separator in
  front of it, and \<open>trailing\<close> counts a final slash, which is read and never written.
\<close>

lemma backtrack_le: "backtrack buf dd w \<le> w"
proof (induction buf dd w rule: backtrack.induct)
  case (1 buf dotdot w)
  show ?case
  proof (cases "w > dotdot \<and> buf ! w \<noteq> Separator")
    case True
    then have "backtrack buf dotdot w = backtrack buf dotdot (w - 1)"
      by (subst backtrack.simps) simp
    with 1 True show ?thesis by simp
  next
    case False
    then show ?thesis by (subst backtrack.simps) auto
  qed
qed

lemma backtrack_ge: "dd \<le> w \<Longrightarrow> dd \<le> backtrack buf dd w"
proof (induction buf dd w rule: backtrack.induct)
  case (1 buf dotdot w)
  show ?case
  proof (cases "w > dotdot \<and> buf ! w \<noteq> Separator")
    case True
    then have "backtrack buf dotdot w = backtrack buf dotdot (w - 1)"
      by (subst backtrack.simps) simp
    moreover from True have "dotdot \<le> w - 1" by arith
    ultimately show ?thesis using 1 True by simp
  next
    case False
    then have "backtrack buf dotdot w = w" by (subst backtrack.simps) auto
    with 1 show ?thesis by simp
  qed
qed

definition tight :: "bool \<Rightarrow> string \<Rightarrow> string \<Rightarrow> bool" where
  "tight rooted rest out \<longleftrightarrow>
     rest = [] \<or> hd rest = Separator \<or> (\<not> rooted \<and> out = []) \<or> (rooted \<and> length out = 1)"

definition trailing :: "string \<Rightarrow> nat" where
  "trailing rest = (if rest \<noteq> [] \<and> last rest = Separator then 1 else 0)"

lemma tight_after_element: "tight rooted (dropWhile (\<lambda>x. x \<noteq> Separator) xs) out"
proof (cases "dropWhile (\<lambda>x. x \<noteq> Separator) xs")
  case Nil
  then show ?thesis by (simp add: tight_def)
next
  case (Cons y ys)
  then have "\<not> (y \<noteq> Separator)" using hd_dropWhile[of "\<lambda>x. x \<noteq> Separator" xs] by auto
  with Cons show ?thesis by (simp add: tight_def)
qed

lemma trailing_dropWhile:
  "trailing (dropWhile (\<lambda>x. x \<noteq> Separator) xs) = trailing xs"
proof (induction xs)
  case Nil
  then show ?case by simp
next
  case (Cons a xs)
  show ?case
  proof (cases "a = Separator")
    case True
    then show ?thesis by simp
  next
    case False
    show ?thesis
    proof (cases "xs = []")
      case True
      with False show ?thesis by (simp add: trailing_def)
    next
      case nonempty: False
      with False Cons show ?thesis by (simp add: trailing_def)
    qed
  qed
qed

lemma length_take_drop_While:
  "length (takeWhile P xs) + length (dropWhile P xs) = length xs"
  by (induction xs) auto

lemma clean_loop_sep:
  "clean_loop rooted (Separator # cs) out dd = clean_loop rooted cs out dd"
  by (subst clean_loop.simps) simp

lemma clean_loop_dot:
  assumes "cs = [] \<or> hd cs = Separator"
  shows "clean_loop rooted (CHR ''.'' # cs) out dd = clean_loop rooted cs out dd"
  using assms by (subst clean_loop.simps) auto

lemma clean_loop_dotdot:
  assumes "cs = [] \<or> hd cs = Separator"
  shows "clean_loop rooted (CHR ''.'' # CHR ''.'' # cs) out dd =
     (if length out > dd then
        clean_loop rooted cs (take (backtrack out dd (length out - 1)) out) dd
      else if \<not> rooted then
        clean_loop rooted cs ((if length out > 0 then out @ [Separator] else out) @ ''..'')
          (length ((if length out > 0 then out @ [Separator] else out) @ ''..''))
      else clean_loop rooted cs out dd)"
  using assms by (subst clean_loop.simps) (auto simp: Let_def)

lemma clean_loop_elem:
  assumes "c \<noteq> Separator"
    and "\<not> (c = CHR ''.'' \<and> (cs = [] \<or> hd cs = Separator))"
    and "\<not> (c = CHR ''.'' \<and> hd cs = CHR ''.'' \<and> (tl cs = [] \<or> hd (tl cs) = Separator))"
  shows "clean_loop rooted (c # cs) out dd =
     clean_loop rooted (dropWhile (\<lambda>x. x \<noteq> Separator) (c # cs))
       ((if rooted \<and> length out \<noteq> 1 \<or> \<not> rooted \<and> length out \<noteq> 0
         then out @ [Separator] else out) @ takeWhile (\<lambda>x. x \<noteq> Separator) (c # cs)) dd"
  by (subst clean_loop.simps) (simp only: assms if_False Let_def)

lemma clean_loop_length:
  "length (clean_loop rooted rest out dd) + trailing rest
     \<le> length out + length rest + (if tight rooted rest out then 0 else 1)"
proof (induction rooted rest out dd rule: clean_loop.induct)
  case (1 rooted out dotdot)
  then show ?case by (simp add: clean_loop.simps trailing_def)
next
  case (2 rooted c cs out dotdot)
  let ?elem = "\<not> (c = CHR ''.'' \<and> (cs = [] \<or> hd cs = Separator))"
  let ?dd = "c = CHR ''.'' \<and> hd cs = CHR ''.'' \<and> (tl cs = [] \<or> hd (tl cs) = Separator)"
  consider (sep) "c = Separator"
    | (dot) "c \<noteq> Separator" "c = CHR ''.'' \<and> (cs = [] \<or> hd cs = Separator)"
    | (dotdot) "c \<noteq> Separator" ?elem ?dd
    | (elem) "c \<noteq> Separator" ?elem "\<not> ?dd"
    by blast
  then show ?case
  proof cases
    case sep
    have eq: "clean_loop rooted (c # cs) out dotdot = clean_loop rooted cs out dotdot"
      using sep by (simp add: clean_loop_sep)
    have tr: "trailing (c # cs) \<le> trailing cs + (if cs = [] then 1 else 0)"
      by (simp add: trailing_def)
    have t: "tight rooted (c # cs) out" using sep by (simp add: tight_def)
    show ?thesis
    proof (cases "cs = []")
      case True
      then show ?thesis using eq t by (simp add: clean_loop.simps trailing_def)
    next
      case False
      then show ?thesis using "2.IH"(1)[OF sep] eq t tr by (auto split: if_splits)
    qed
  next
    case dot
    have eq: "clean_loop rooted (c # cs) out dotdot = clean_loop rooted cs out dotdot"
      using dot by (simp add: clean_loop_dot)
    have t: "tight rooted cs out" using dot by (auto simp: tight_def)
    have "trailing (c # cs) \<le> trailing cs" using dot by (simp add: trailing_def)
    then show ?thesis using "2.IH"(2)[OF dot(1) dot(2)] eq t by (auto split: if_splits)
  next
    case dotdot
    then obtain cs2 where cs: "cs = CHR ''.'' # cs2" by (cases cs) auto
    with dotdot have cs2: "cs2 = [] \<or> hd cs2 = Separator" by simp
    then have t: "tight rooted cs2 o'" for o' by (auto simp: tight_def)
    have tr: "trailing (c # cs) = trailing cs2" using cs cs2 dotdot by (auto simp: trailing_def)
    show ?thesis
    proof (cases "length out > dotdot")
      case True
      have eq: "clean_loop rooted (c # cs) out dotdot =
          clean_loop rooted cs2 (take (backtrack out dotdot (length out - 1)) out) dotdot"
        using dotdot True cs cs2 by (simp add: clean_loop_dotdot)
      have "length (take (backtrack out dotdot (length out - 1)) out) \<le> length out" by simp
      then show ?thesis
        using "2.IH"(3)[OF dotdot(1) dotdot(2) dotdot(3) True] eq t tr cs by (auto split: if_splits)
    next
      case False
      show ?thesis
      proof (cases rooted)
        case True
        have eq: "clean_loop rooted (c # cs) out dotdot = clean_loop rooted cs2 out dotdot"
          using dotdot False True cs cs2 by (simp add: clean_loop_dotdot)
        show ?thesis
          using "2.IH"(5)[OF dotdot(1) dotdot(2) dotdot(3) False] True eq t tr cs by (auto split: if_splits)
      next
        case nr: False
        define out' where "out' = (if length out > 0 then out @ [Separator] else out) @ ''..''"
        have eq: "clean_loop rooted (c # cs) out dotdot = clean_loop rooted cs2 out' (length out')"
          using dotdot False nr cs cs2 by (simp add: clean_loop_dotdot out'_def)
        have nt: "out \<noteq> [] \<Longrightarrow> \<not> tight rooted (c # cs) out"
          using dotdot nr by (auto simp: tight_def)
        have len: "length out' = length out + 2 + (if out = [] then 0 else 1)"
          by (simp add: out'_def)
        have ih: "length (clean_loop rooted cs2 out' (length out')) + trailing cs2
                    \<le> length out' + length cs2"
          using "2.IH"(4)[OF dotdot(1) dotdot(2) dotdot(3) False nr out'_def] t cs
          by (auto simp: out'_def)
        show ?thesis using ih eq len nt tr cs by (auto split: if_splits)
      qed
    qed
  next
    case elem
    define out' where "out' = (if rooted \<and> length out \<noteq> 1 \<or> \<not> rooted \<and> length out \<noteq> 0
                     then out @ [Separator] else out)"
    let ?rest = "dropWhile (\<lambda>x. x \<noteq> Separator) (c # cs)"
    let ?el = "takeWhile (\<lambda>x. x \<noteq> Separator) (c # cs)"
    have eq: "clean_loop rooted (c # cs) out dotdot = clean_loop rooted ?rest (out' @ ?el) dotdot"
      unfolding out'_def by (rule clean_loop_elem[OF elem])
    have t: "tight rooted ?rest (out' @ ?el)" by (rule tight_after_element)
    have tr: "trailing ?rest = trailing (c # cs)" by (rule trailing_dropWhile)
    have ti: "tight rooted (c # cs) out \<longleftrightarrow> out' = out"
      using elem(1) by (auto simp: tight_def out'_def)
    have len: "length out' = length out + (if tight rooted (c # cs) out then 0 else 1)"
      using ti by (auto simp: out'_def)
    have ih: "length (clean_loop rooted ?rest (out' @ ?el) dotdot) + trailing ?rest
                \<le> length (out' @ ?el) + length ?rest"
      using "2.IH"(6)[OF elem(1) elem(2) elem(3) out'_def] t by simp
    have "length ?el + length ?rest = length (c # cs)" by (rule length_take_drop_While)
    then show ?thesis using ih eq len tr by (auto split: if_splits)
  qed
qed

lemma clean_loop_rooted:
  "out \<noteq> [] \<Longrightarrow> hd out = Separator \<Longrightarrow> 1 \<le> dd \<Longrightarrow>
     clean_loop True rest out dd \<noteq> [] \<and> hd (clean_loop True rest out dd) = Separator"
proof (induction "True" rest out dd rule: clean_loop.induct)
  case (1 out dotdot)
  then show ?case by (simp add: clean_loop.simps)
next
  case (2 c cs out dotdot)
  let ?elem = "\<not> (c = CHR ''.'' \<and> (cs = [] \<or> hd cs = Separator))"
  let ?dd = "c = CHR ''.'' \<and> hd cs = CHR ''.'' \<and> (tl cs = [] \<or> hd (tl cs) = Separator)"
  consider (sep) "c = Separator"
    | (dot) "c \<noteq> Separator" "c = CHR ''.'' \<and> (cs = [] \<or> hd cs = Separator)"
    | (dotdot) "c \<noteq> Separator" ?elem ?dd
    | (elem) "c \<noteq> Separator" ?elem "\<not> ?dd"
    by blast
  then show ?case
  proof cases
    case sep
    then show ?thesis using 2 by (simp add: clean_loop_sep)
  next
    case dot
    then show ?thesis using 2 by (simp add: clean_loop_dot)
  next
    case dotdot
    then obtain cs2 where cs: "cs = CHR ''.'' # cs2" by (cases cs) auto
    with dotdot have cs2: "cs2 = [] \<or> hd cs2 = Separator" by simp
    show ?thesis
    proof (cases "length out > dotdot")
      case True
      define k where "k = backtrack out dotdot (length out - 1)"
      from True have "dotdot \<le> length out - 1" by arith
      then have "dotdot \<le> k" unfolding k_def by (rule backtrack_ge)
      with "2.prems" have k: "1 \<le> k" by simp
      then have "take k out \<noteq> []" "hd (take k out) = Separator"
        using "2.prems" by (cases out; cases k; simp)+
      then show ?thesis
        using "2.hyps"(3)[OF dotdot(1) dotdot(2) dotdot(3) True] "2.prems" cs cs2 True dotdot(3)
        by (simp add: clean_loop_dotdot k_def)
    next
      case False
      then show ?thesis
        using "2.hyps"(5)[OF dotdot(1) dotdot(2) dotdot(3) False] "2.prems" cs cs2 dotdot(3)
        by (simp add: clean_loop_dotdot)
    qed
  next
    case elem
    define out' where "out' = (if True \<and> length out \<noteq> 1 \<or> \<not> True \<and> length out \<noteq> 0
                     then out @ [Separator] else out)"
    have o: "out' @ takeWhile (\<lambda>x. x \<noteq> Separator) (c # cs) \<noteq> []"
       "hd (out' @ takeWhile (\<lambda>x. x \<noteq> Separator) (c # cs)) = Separator"
      using "2.prems" by (auto simp: out'_def)
    show ?thesis
      using "2.hyps"(6)[OF elem(1) elem(2) elem(3) out'_def o "2.prems"(3)]
      unfolding out'_def clean_loop_elem[OF elem] .
  qed
qed

lemma Clean_rooted:
  assumes "path \<noteq> []" and "hd path = Separator"
  shows "Clean path \<noteq> [] \<and> hd (Clean path) = Separator"
  using assms clean_loop_rooted[of "[Separator]" 1 "tl path"]
  by (simp add: Clean_def Let_def)

lemma Clean_shrinks:
  assumes "2 \<le> length s" and "last s = Separator"
  shows "length (Clean s) < length s"
proof -
  from assms have ne: "s \<noteq> []" by auto
  show ?thesis
  proof (cases "hd s = Separator")
    case True
    from assms ne have tl: "tl s \<noteq> []" "last (tl s) = Separator"
      by (cases s; cases "tl s"; auto)+
    have "tight True (tl s) [Separator]" by (simp add: tight_def)
    with clean_loop_length[of True "tl s" "[Separator]" 1] tl
    have "length (clean_loop True (tl s) [Separator] 1) + 1 \<le> 1 + length (tl s)"
      by (simp add: trailing_def)
    with True ne assms show ?thesis by (simp add: Clean_def Let_def)
  next
    case False
    have "tight False s []" by (simp add: tight_def)
    with clean_loop_length[of False s "[]" 0] ne assms
    have "length (clean_loop False s [] 0) + 1 \<le> length s"
      by (simp add: trailing_def)
    with False ne assms show ?thesis by (simp add: Clean_def Let_def)
  qed
qed

lemma Clean_root: "Clean [Separator] = [Separator]"
  by (simp add: Clean_def clean_loop.simps)

lemma dirPrefix_cases:
  "dirPrefix p = [] \<or> (last (dirPrefix p) = Separator \<and> dirPrefix p \<noteq> [])"
proof (cases "dropWhile (\<lambda>x. x \<noteq> Separator) (rev p)")
  case Nil
  then show ?thesis by (simp add: dirPrefix_def)
next
  case (Cons y ys)
  then have "\<not> (y \<noteq> Separator)"
    using hd_dropWhile[of "\<lambda>x. x \<noteq> Separator" "rev p"] by auto
  with Cons show ?thesis by (simp add: dirPrefix_def)
qed

lemma length_dirPrefix: "length (dirPrefix p) \<le> length p"
  using length_dropWhile_le[of "\<lambda>x. x \<noteq> Separator" "rev p"] by (simp add: dirPrefix_def)

definition pathMeasure :: "string \<Rightarrow> nat" where
  "pathMeasure p = (if p = ''.'' then 0 else length p + 1)"

lemma dropWhile_full: "length (dropWhile P xs) = length xs \<Longrightarrow> dropWhile P xs = xs"
  using length_dropWhile_le[of P "tl xs"] by (cases xs) (auto split: if_splits)

lemma dirPrefix_full: "length (dirPrefix p) = length p \<Longrightarrow> dirPrefix p = p"
proof -
  assume "length (dirPrefix p) = length p"
  then have "length (dropWhile (\<lambda>x. x \<noteq> Separator) (rev p)) = length (rev p)"
    by (simp add: dirPrefix_def)
  then have "dropWhile (\<lambda>x. x \<noteq> Separator) (rev p) = rev p"
    by (rule dropWhile_full)
  then show ?thesis by (simp add: dirPrefix_def)
qed

lemma Dir_decreases:
  assumes "Dir p \<noteq> p"
  shows "pathMeasure (Dir p) < pathMeasure p"
proof -
  consider (none) "dirPrefix p = []"
    | (one) "dirPrefix p = [Separator]"
    | (more) "2 \<le> length (dirPrefix p)" "last (dirPrefix p) = Separator"
    using dirPrefix_cases[of p] by (cases "dirPrefix p"; cases "tl (dirPrefix p)"; auto)
  then show ?thesis
  proof cases
    case none
    then have "Dir p = ''.''" by (simp add: Dir_def Clean_def)
    with assms show ?thesis by (auto simp: pathMeasure_def)
  next
    case one
    then have d: "Dir p = [Separator]" by (simp add: Dir_def Clean_root)
    from one length_dirPrefix[of p] have "1 \<le> length p" by simp
    moreover have "length p \<noteq> 1"
    proof
      assume "length p = 1"
      with one have "dirPrefix p = p" by (intro dirPrefix_full) simp
      with one d assms show False by simp
    qed
    ultimately have "2 \<le> length p" by arith
    with d show ?thesis by (auto simp: pathMeasure_def)
  next
    case more
    then have "length (Clean (dirPrefix p)) < length (dirPrefix p)" by (rule Clean_shrinks)
    with length_dirPrefix[of p] have "length (Dir p) < length p" by (simp add: Dir_def)
    moreover from more length_dirPrefix[of p] have "p \<noteq> ''.''" by auto
    ultimately show ?thesis by (auto simp: pathMeasure_def)
  qed
qed

lemma Join_rooted:
  assumes "root \<noteq> []" and "hd root = Separator"
  shows "Join [root, t] \<noteq> [] \<and> hd (Join [root, t]) = Separator"
  using assms Clean_rooted[of "root @ [Separator] @ t"] by simp

text \<open>
  A last element that is neither empty nor a dot is kept by \<open>Clean\<close>, so the file
  \<open>node.yaml\<close> of a node is never its own parent directory.
\<close>

lemma last_dropWhile_sep:
  "dropWhile (\<lambda>x. x \<noteq> Separator) xs \<noteq> [] \<Longrightarrow>
   last (dropWhile (\<lambda>x. x \<noteq> Separator) xs) = last xs"
  by (induction xs) (auto split: if_splits)

lemma clean_loop_last:
  "rest \<noteq> [] \<Longrightarrow> last rest \<noteq> Separator \<Longrightarrow> last rest \<noteq> CHR ''.'' \<Longrightarrow>
   clean_loop rooted rest out dd \<noteq> [] \<and> last (clean_loop rooted rest out dd) = last rest"
proof (induction rooted rest out dd rule: clean_loop.induct)
  case (1 rooted out dotdot)
  then show ?case by simp
next
  case (2 rooted c cs out dotdot)
  let ?elem = "\<not> (c = CHR ''.'' \<and> (cs = [] \<or> hd cs = Separator))"
  let ?dd = "c = CHR ''.'' \<and> hd cs = CHR ''.'' \<and> (tl cs = [] \<or> hd (tl cs) = Separator)"
  consider (sep) "c = Separator"
    | (dot) "c \<noteq> Separator" "c = CHR ''.'' \<and> (cs = [] \<or> hd cs = Separator)"
    | (dotdot) "c \<noteq> Separator" ?elem ?dd
    | (elem) "c \<noteq> Separator" ?elem "\<not> ?dd"
    by blast
  then show ?case
  proof cases
    case sep
    with "2.prems" have cs: "cs \<noteq> []" by auto
    with "2.prems" have "last cs \<noteq> Separator" "last cs \<noteq> CHR ''.''" by auto
    from "2.IH"(1)[OF sep cs this] sep cs show ?thesis by (simp add: clean_loop_sep)
  next
    case dot
    with "2.prems" have cs: "cs \<noteq> []" by auto
    with "2.prems" have "last cs \<noteq> Separator" "last cs \<noteq> CHR ''.''" by auto
    from "2.IH"(2)[OF dot(1) dot(2) cs this] dot cs show ?thesis by (simp add: clean_loop_dot)
  next
    case dotdot
    then obtain cs2 where cs: "cs = CHR ''.'' # cs2" by (cases cs) auto
    with dotdot have sep2: "cs2 = [] \<or> hd cs2 = Separator" by simp
    from "2.prems" cs dotdot have cs2: "cs2 \<noteq> []" by auto
    with "2.prems" cs have l: "last cs2 \<noteq> Separator" "last cs2 \<noteq> CHR ''.''" by auto
    have t: "tl cs = cs2" using cs by simp
    show ?thesis
    proof (cases "length out > dotdot")
      case True
      from "2.IH"(3)[OF dotdot(1) dotdot(2) dotdot(3) True] cs2 l t True dotdot cs sep2
      show ?thesis by (simp add: clean_loop_dotdot)
    next
      case False
      show ?thesis
      proof (cases rooted)
        case True
        from "2.IH"(5)[OF dotdot(1) dotdot(2) dotdot(3) False] cs2 l t True False dotdot cs sep2
        show ?thesis by (simp add: clean_loop_dotdot)
      next
        case nr: False
        from "2.IH"(4)[OF dotdot(1) dotdot(2) dotdot(3) False nr refl] cs2 l t nr False dotdot cs sep2
        show ?thesis by (simp add: clean_loop_dotdot)
      qed
    qed
  next
    case elem
    define out' where "out' = (if rooted \<and> length out \<noteq> 1 \<or> \<not> rooted \<and> length out \<noteq> 0
                     then out @ [Separator] else out)"
    let ?rest = "dropWhile (\<lambda>x. x \<noteq> Separator) (c # cs)"
    let ?el = "takeWhile (\<lambda>x. x \<noteq> Separator) (c # cs)"
    have eq: "clean_loop rooted (c # cs) out dotdot = clean_loop rooted ?rest (out' @ ?el) dotdot"
      unfolding out'_def by (rule clean_loop_elem[OF elem])
    show ?thesis
    proof (cases "?rest = []")
      case True
      then have "?el = c # cs" by (metis takeWhile_dropWhile_id append_Nil2)
      with True eq show ?thesis by (simp add: clean_loop.simps)
    next
      case False
      then have "last ?rest = last (c # cs)" by (rule last_dropWhile_sep)
      with "2.IH"(6)[OF elem(1) elem(2) elem(3) out'_def False] "2.prems" eq
      show ?thesis by simp
    qed
  qed
qed

lemma Clean_last:
  assumes "s \<noteq> []" and "last s \<noteq> Separator" and "last s \<noteq> CHR ''.''"
  shows "Clean s \<noteq> [] \<and> last (Clean s) = last s"
proof (cases "hd s = Separator")
  case True
  with assms have tl: "tl s \<noteq> []" by (cases s; cases "tl s"; auto)
  with assms have "last (tl s) = last s" by (cases s) auto
  with clean_loop_last[of "tl s" True "[Separator]" 1] tl assms True
  show ?thesis by (simp add: Clean_def Let_def)
next
  case False
  with clean_loop_last[of s False "[]" 0] assms show ?thesis
    by (simp add: Clean_def Let_def)
qed

lemma Dir_fixed: "Dir p = p \<Longrightarrow> p = ''.'' \<or> p = [Separator]"
proof -
  assume fixed: "Dir p = p"
  consider (none) "dirPrefix p = []"
    | (one) "dirPrefix p = [Separator]"
    | (more) "2 \<le> length (dirPrefix p)" "last (dirPrefix p) = Separator"
    using dirPrefix_cases[of p] by (cases "dirPrefix p"; cases "tl (dirPrefix p)"; auto)
  then show ?thesis
  proof cases
    case none
    then have "Dir p = ''.''" by (simp add: Dir_def Clean_def)
    with fixed show ?thesis by simp
  next
    case one
    then have "Dir p = [Separator]" by (simp add: Dir_def Clean_root)
    with fixed show ?thesis by simp
  next
    case more
    then have "length (Clean (dirPrefix p)) < length (dirPrefix p)" by (rule Clean_shrinks)
    with length_dirPrefix[of p] have "length (Dir p) < length p" by (simp add: Dir_def)
    with fixed show ?thesis by simp
  qed
qed

lemma Join_node_yaml_last:
  "Join [root, p, ''node.yaml''] \<noteq> [] \<and> last (Join [root, p, ''node.yaml'']) = CHR ''l''"
proof -
  have "Clean (xs @ ''node.yaml'') \<noteq> [] \<and> last (Clean (xs @ ''node.yaml'')) = CHR ''l''" for xs
    using Clean_last[of "xs @ ''node.yaml''"] by simp
  from this[of "[]"] this[of "p @ [Separator]"] this[of "root @ [Separator] @ p @ [Separator]"]
  show ?thesis by simp
qed

lemma node_file_not_own_parent:
  "Dir (Join [root, p, ''node.yaml'']) \<noteq> Join [root, p, ''node.yaml'']"
  using Dir_fixed[of "Join [root, p, ''node.yaml'']"] Join_node_yaml_last[of root p]
  by (auto simp del: Join.simps)

text \<open>The path, its parent, and so on up to the first path that is its own parent.\<close>

function ancestors :: "string \<Rightarrow> string list" where
  "ancestors path = path # (if path = Dir path then [] else ancestors (Dir path))"
  by pat_completeness auto
termination
  by (relation "measure pathMeasure") (auto intro: Dir_decreases)

declare ancestors.simps [simp del]

section \<open>Results, errors and the data directory\<close>

text \<open>
  A Go function of the daemon either panics or returns; what it returns may itself hold
  an \<^verbatim>\<open>error\<close> value. \<open>Panic\<close> carries the fixed part of the message (the text of
  the error that the source appends is left out), \<open>Done\<close> the returned values.
\<close>

datatype 'a outcome = Panic string | Done 'a

datatype error = ErrNotExist | ErrExist | ErrNotDir | ErrIsDir | ErrYaml string

text \<open>
  The data directory: the set of directories and the content of the regular files, both
  keyed by the path string handed to the operating system. The three calls the daemon
  makes are modelled with the failures that depend on the tree itself: a missing file, a
  missing parent, a regular file where a directory is needed, a name already taken.
  Permissions, links and device errors are outside the model.
\<close>

record filesystem =
  dirs :: "string set"
  files :: "string \<rightharpoonup> string"

text \<open>
  A name that lies below a regular file cannot be resolved: the operating system answers
  \<^verbatim>\<open>ENOTDIR\<close> for it, and \<^verbatim>\<open>ENOENT\<close> for a name that is simply absent.
\<close>

definition underFile :: "filesystem \<Rightarrow> string \<Rightarrow> bool" where
  "underFile fs name \<longleftrightarrow> (\<exists>p \<in> set (ancestors (Dir name)). files fs p \<noteq> None)"

definition absentError :: "filesystem \<Rightarrow> string \<Rightarrow> error" where
  "absentError fs name = (if underFile fs name then ErrNotDir else ErrNotExist)"

definition ReadFile :: "filesystem \<Rightarrow> string \<Rightarrow> error + string" where
  "ReadFile fs name =
     (case files fs name of
        Some content \<Rightarrow> Inr content
      | None \<Rightarrow> Inl (if name \<in> dirs fs then ErrIsDir else absentError fs name))"

definition WriteFile :: "filesystem \<Rightarrow> string \<Rightarrow> string \<Rightarrow> filesystem \<times> error option" where
  "WriteFile fs name content =
     (if name \<in> dirs fs then (fs, Some ErrIsDir)
      else if Dir name \<notin> dirs fs then (fs, Some (absentError fs name))
      else (fs\<lparr>files := (files fs)(name \<mapsto> content)\<rparr>, None))"

text \<open>\<^verbatim>\<open>os.Mkdir\<close> creates one directory; it does not create parents.\<close>

definition Mkdir :: "filesystem \<Rightarrow> string \<Rightarrow> filesystem \<times> error option" where
  "Mkdir fs name =
     (if name \<in> dirs fs \<or> name \<in> dom (files fs) then (fs, Some ErrExist)
      else if Dir name \<notin> dirs fs then (fs, Some (absentError fs name))
      else (fs\<lparr>dirs := insert name (dirs fs)\<rparr>, None))"

definition IsExist :: "error \<Rightarrow> bool" where
  "IsExist err \<longleftrightarrow> err = ErrExist"

section \<open>Inherited sidebar content\<close>

text \<open>
  \<^verbatim>\<open>getSidebar\<close> probes \<open>sidebar.html\<close> at the node and then at each parent directory,
  until a file is read or \<open>path == filepath.Dir(path)\<close>. The loop is a recursion on the
  path; its termination rests on \<open>Dir_decreases\<close>.
\<close>

function getSidebar :: "filesystem \<Rightarrow> string \<Rightarrow> string \<Rightarrow> string" where
  "getSidebar fs path root =
     (case ReadFile fs (Join [root, path, ''sidebar.html'']) of
        Inl err \<Rightarrow> (if path = Dir path then [] else getSidebar fs (Dir path) root)
      | Inr content \<Rightarrow> content)"
  by pat_completeness auto
termination
  by (relation "measure (\<lambda>(fs, path, root). pathMeasure path)")
     (auto intro: Dir_decreases)

declare getSidebar.simps [simp del]

text \<open>The same loop, recording every path it probes.\<close>

function sidebarProbes :: "filesystem \<Rightarrow> string \<Rightarrow> string \<Rightarrow> string list" where
  "sidebarProbes fs path root =
     (case ReadFile fs (Join [root, path, ''sidebar.html'']) of
        Inl err \<Rightarrow> path # (if path = Dir path then [] else sidebarProbes fs (Dir path) root)
      | Inr content \<Rightarrow> [path])"
  by pat_completeness auto
termination
  by (relation "measure (\<lambda>(fs, path, root). pathMeasure path)")
     (auto intro: Dir_decreases)

declare sidebarProbes.simps [simp del]

section \<open>Navigation\<close>

record navLink =
  Name :: string
  Target :: string
  Active :: bool

text \<open>A Go slice is \<open>nil\<close> or holds elements; \<open>None\<close> is the nil slice.\<close>

type_synonym navigation = "navLink list option"

definition elems :: "navigation \<Rightarrow> navLink list" where
  "elems nav = (case nav of None \<Rightarrow> [] | Some links \<Rightarrow> links)"

definition len :: "navigation \<Rightarrow> nat" where
  "len nav = length (elems nav)"

text \<open>
  The search loop of \<^verbatim>\<open>getNav\<close>: it returns the content read (empty when the loop
  breaks on an error), \<open>hasNav\<close> and \<open>navRoot\<close>.
\<close>

function getNav_loop ::
  "filesystem \<Rightarrow> string \<Rightarrow> bool \<Rightarrow> string \<Rightarrow> bool \<Rightarrow> string \<times> bool \<times> string" where
  "getNav_loop fs root recursive nodePath hasNav =
     (case ReadFile fs (Join [root, nodePath, ''navigation.yaml'']) of
        Inl err \<Rightarrow>
          (if \<not> recursive \<or> Dir nodePath = Dir (Dir nodePath) then ([], False, [])
           else getNav_loop fs root recursive (Dir nodePath) False)
      | Inr content \<Rightarrow> (content, hasNav, if recursive then nodePath else []))"
  by pat_completeness auto
termination
proof (relation "measure (\<lambda>(fs, root, recursive, nodePath, hasNav). pathMeasure nodePath)")
  show "wf (measure (\<lambda>(fs, root, recursive, nodePath, hasNav). pathMeasure nodePath))"
    by simp
next
  fix fs :: filesystem and root nodePath :: string and recursive hasNav :: bool
    and err :: error
  assume "\<not> (\<not> recursive \<or> Dir nodePath = Dir (Dir nodePath))"
  then have "Dir nodePath \<noteq> nodePath" by auto
  then have "pathMeasure (Dir nodePath) < pathMeasure nodePath" by (rule Dir_decreases)
  then show "((fs, root, recursive, Dir nodePath, False), (fs, root, recursive, nodePath, hasNav))
      \<in> measure (\<lambda>(fs, root, recursive, nodePath, hasNav). pathMeasure nodePath)"
    by simp
qed

declare getNav_loop.simps [simp del]

text \<open>
  The marking loop of \<^verbatim>\<open>getNav\<close>:
  \<^verbatim>\<open>for i, link := range navLinks { if link.Target == active { navLinks[i].Active = true; break } }\<close>
\<close>

fun markActive_loop :: "navLink list \<Rightarrow> string \<Rightarrow> navLink list" where
  "markActive_loop [] active = []"
| "markActive_loop (link # links) active =
     (if Target link = active then link\<lparr>Active := True\<rparr> # links
      else link # markActive_loop links active)"

definition markActive :: "navigation \<Rightarrow> string \<Rightarrow> navigation" where
  "markActive navLinks active = map_option (\<lambda>links. markActive_loop links active) navLinks"

text \<open>
  \<open>Unmarshal\<close> stands for \<^verbatim>\<open>goyaml.Unmarshal(content, &navLinks)\<close> on the nil navigation.
  Its first component is what the call leaves in \<open>navLinks\<close>: the decoded links, and
  after a failure whatever was decoded before it (nothing, or the leading links when the
  decoder fails late). Its second component is the error returned. \<^verbatim>\<open>getNav\<close> does not
  look at the error and goes on with what is in \<open>navLinks\<close>.
\<close>

definition getNav ::
  "(string \<Rightarrow> navigation \<times> error option) \<Rightarrow> filesystem \<Rightarrow> string \<Rightarrow> string \<Rightarrow> bool
     \<Rightarrow> string \<Rightarrow> navigation \<times> string" where
  "getNav Unmarshal fs nodePath active recursive root =
     (case getNav_loop fs root recursive nodePath True of
        (content, hasNav, navRoot) \<Rightarrow>
          let navLinks = fst (Unmarshal content);
              navLinks = markActive navLinks active
          in if len navLinks = 0 \<and> hasNav then (Some [], navRoot) else (navLinks, navRoot))"

text \<open>\<^verbatim>\<open>Dump\<close> clears the flags in place, marshals, and writes; both failures panic.\<close>

definition clearActive :: "navigation \<Rightarrow> navigation" where
  "clearActive nav = map_option (map (\<lambda>link. link\<lparr>Active := False\<rparr>)) nav"

definition Dump ::
  "(navigation \<Rightarrow> error + string) \<Rightarrow> navigation \<Rightarrow> string \<Rightarrow> string \<Rightarrow> filesystem
     \<Rightarrow> (filesystem \<times> navigation) outcome" where
  "Dump Marshal nav nodePath root fs =
     (let nav = clearActive nav in
      case Marshal nav of
        Inl err \<Rightarrow> Panic ''Could not marshal navigation: ''
      | Inr content \<Rightarrow>
          if nodePath = [] then Panic ''slice bounds out of range''
          else (case WriteFile fs (Join [root, tl nodePath, ''navigation.yaml'']) content of
                  (fs', Some err) \<Rightarrow> Panic ''Could not write navigation: ''
                | (fs', None) \<Rightarrow> Done (fs', nav)))"

text \<open>
  \<^verbatim>\<open>MakeAbsolute\<close> reads \<open>Target[0]\<close> of every link, which panics on an empty target,
  and joins the relative ones to \<open>root\<close>.
\<close>

fun MakeAbsolute_loop :: "navLink list \<Rightarrow> string \<Rightarrow> navLink list outcome" where
  "MakeAbsolute_loop [] root = Done []"
| "MakeAbsolute_loop (link # links) root =
     (if Target link = [] then Panic ''index out of range''
      else let link' = (if hd (Target link) \<noteq> Separator
                        then link\<lparr>Target := Join [root, Target link]\<rparr> else link)
           in case MakeAbsolute_loop links root of
                Panic msg \<Rightarrow> Panic msg
              | Done links' \<Rightarrow> Done (link' # links'))"

definition MakeAbsolute :: "navigation \<Rightarrow> string \<Rightarrow> navigation outcome" where
  "MakeAbsolute nav root =
     (case nav of
        None \<Rightarrow> Done None
      | Some links \<Rightarrow>
          (case MakeAbsolute_loop links root of
             Panic msg \<Rightarrow> Panic msg
           | Done links' \<Rightarrow> Done (Some links')))"

text \<open>
  \<^verbatim>\<open>Remove\<close> allocates \<open>make(navigation, 0, len(nav)-1)\<close>, which panics when the capacity
  is negative, and appends every link with another target.
\<close>

fun Remove_loop :: "navLink list \<Rightarrow> string \<Rightarrow> navLink list \<Rightarrow> navLink list" where
  "Remove_loop [] target ret = ret"
| "Remove_loop (v # vs) target ret =
     Remove_loop vs target (if Target v \<noteq> target then ret @ [v] else ret)"

definition Remove :: "navigation \<Rightarrow> string \<Rightarrow> navigation outcome" where
  "Remove nav target =
     (if int (len nav) - 1 < 0 then Panic ''makeslice: cap out of range''
      else Done (Some (Remove_loop (elems nav) target [])))"

section \<open>Node records\<close>

record client_Node =
  Path :: string
  Type :: string
  Title :: string
  Created :: "string option"
  CreatedBy :: string
  LastUpdate :: "string option"
  LastUpdateBy :: string

text \<open>
  \<open>Unmarshal\<close> and \<open>Marshal\<close> stand for the YAML codec applied to a node. Both functions of
  the daemon slice \<open>path[1:]\<close>, which panics on the empty path.
\<close>

definition lookupNode ::
  "(string \<Rightarrow> error + client_Node) \<Rightarrow> filesystem \<Rightarrow> string \<Rightarrow> string
     \<Rightarrow> (error + client_Node) outcome" where
  "lookupNode Unmarshal fs root path =
     (if path = [] then Panic ''slice bounds out of range''
      else case ReadFile fs (Join [root, tl path, ''node.yaml'']) of
             Inl err \<Rightarrow> Done (Inl err)
           | Inr content \<Rightarrow>
               (case Unmarshal content of
                  Inl err \<Rightarrow> Done (Inl err)
                | Inr node \<Rightarrow> Done (Inr (node\<lparr>Path := path\<rparr>))))"

definition writeNode ::
  "(client_Node \<Rightarrow> error + string) \<Rightarrow> filesystem \<Rightarrow> client_Node \<Rightarrow> string
     \<Rightarrow> (filesystem \<times> error option) outcome" where
  "writeNode Marshal fs node root =
     (let path = Path node; node = node\<lparr>Path := []\<rparr> in
      case Marshal node of
        Inl err \<Rightarrow> Done (fs, Some err)
      | Inr content \<Rightarrow>
          if path = [] then Panic ''slice bounds out of range''
          else let node_path = Join [root, tl path, ''node.yaml''] in
               (case Mkdir fs (Dir node_path) of
                  (fs', Some err) \<Rightarrow>
                    if \<not> IsExist err then Panic ''Can't create directory for new node: ''
                    else Done (WriteFile fs' node_path content)
                | (fs', None) \<Rightarrow> Done (WriteFile fs' node_path content)))"

section \<open>Dispatching a request to a worker\<close>

record client_Response =
  Body :: string
  Redirect :: string
  Raw :: bool
  Node :: "client_Node option"

record Ticket =
  ticketNode :: client_Node
  ticketAction :: string
  ticketSite :: string

text \<open>
  \<^verbatim>\<open>QueueTicket\<close> panics when the node type has no queue and sends the ticket otherwise.
  A queue is the list of tickets sent on its channel.
\<close>

definition QueueTicket ::
  "(string \<rightharpoonup> Ticket list) \<Rightarrow> Ticket \<Rightarrow> (string \<rightharpoonup> Ticket list) outcome" where
  "QueueTicket NodeQueues ticket =
     (let nodeType = Type (ticketNode ticket) in
      case NodeQueues nodeType of
        None \<Rightarrow> Panic (''Missing queue for node type '' @ nodeType)
      | Some queue \<Rightarrow> Done (NodeQueues(nodeType \<mapsto> queue @ [ticket])))"

text \<open>
  What the worker does with the response channel of a ticket: it sends a response, or
  the channel is closed when the worker process dies. The receive \<open>res := <-c\<close> on a
  closed channel returns the zero value of the element type.
\<close>

datatype reply = Sent client_Response | Closed

definition zeroResponse :: client_Response where
  "zeroResponse = \<lparr>Body = [], Redirect = [], Raw = False, Node = None\<rparr>"

definition receive :: "reply \<Rightarrow> client_Response" where
  "receive c = (case c of Sent res \<Rightarrow> res | Closed \<Rightarrow> zeroResponse)"

text \<open>What the handler writes to the HTTP response.\<close>

datatype written =
    HttpError string nat
  | HttpRedirect string nat
  | HttpContent string

datatype masterTmplFlags = NO_FLAGS | EDIT_VIEW

record masterTmplEnv =
  envNode :: client_Node
  envTitle :: string
  envFlags :: masterTmplFlags

text \<open>
  \<open>renderInMaster\<close> is the template renderer with the handler's settings, site and
  locale; \<open>editTitle\<close> is the localised \<^verbatim>\<open>Edit "%s"\<close> format applied to the node's title;
  \<open>saved\<close> is the result of \<^verbatim>\<open>session.Save\<close>.
\<close>

definition responseNode :: "client_Response \<Rightarrow> client_Node \<Rightarrow> client_Node" where
  "responseNode res node =
     (case Node res of
        None \<Rightarrow> node
      | Some resNode \<Rightarrow> (let oldPath = Path node; node = resNode in node\<lparr>Path := oldPath\<rparr>))"

definition ProcessNodeResponse ::
  "(string \<Rightarrow> masterTmplEnv \<Rightarrow> string) \<Rightarrow> (string \<Rightarrow> string) \<Rightarrow> error option
     \<Rightarrow> client_Response \<Rightarrow> client_Node \<Rightarrow> string \<Rightarrow> written outcome" where
  "ProcessNodeResponse renderInMaster editTitle saved res node action =
     (if length (Body res) = 0 \<and> length (Redirect res) = 0
      then Done (HttpError ''Application error.'' 500)
      else let node = responseNode res node in
           if length (Redirect res) > 0 then Done (HttpRedirect (Redirect res) 303)
           else let env = (if action = ''edit''
                           then \<lparr>envNode = node, envTitle = editTitle (Title node),
                                 envFlags = EDIT_VIEW\<rparr>
                           else \<lparr>envNode = node, envTitle = [], envFlags = NO_FLAGS\<rparr>);
                    content = (if Raw res then Body res else renderInMaster (Body res) env)
                in case saved of
                     Some err \<Rightarrow> Panic ''session save failed''
                   | None \<Rightarrow> Done (HttpContent content))"

definition RequestNode ::
  "(string \<Rightarrow> masterTmplEnv \<Rightarrow> string) \<Rightarrow> (string \<Rightarrow> string) \<Rightarrow> error option
     \<Rightarrow> (string \<rightharpoonup> Ticket list) \<Rightarrow> reply \<Rightarrow> client_Node \<Rightarrow> string \<Rightarrow> string
     \<Rightarrow> written outcome" where
  "RequestNode renderInMaster editTitle saved NodeQueues c node action site =
     (case QueueTicket NodeQueues
             \<lparr>ticketNode = node, ticketAction = action, ticketSite = site\<rparr> of
        Panic msg \<Rightarrow> Panic msg
      | Done queues \<Rightarrow>
          let res = receive c
          in ProcessNodeResponse renderInMaster editTitle saved res node action)"

section \<open>Sample data\<close>

text \<open>
  A small data directory and a navigation with two links to the same target, on which
  the theorems below are instantiated.
\<close>

definition sampleLinks :: "navLink list" where
  "sampleLinks =
     [\<lparr>Name = ''Home'', Target = ''x'', Active = False\<rparr>,
      \<lparr>Name = ''First'', Target = ''t'', Active = False\<rparr>,
      \<lparr>Name = ''Second'', Target = ''t'', Active = False\<rparr>]"

definition sampleTree :: filesystem where
  "sampleTree = \<lparr>dirs = {''/d''}, files = [''/d/navigation.yaml'' \<mapsto> ''nav'']\<rparr>"

text \<open>
  A decoder for four contents: a list of three links, a list whose second item is an
  unknown alias (the first link is decoded before the failure), the empty list, and
  anything else, which fails before a link is decoded.
\<close>

definition sampleUnmarshalNav :: "string \<Rightarrow> navigation \<times> error option" where
  "sampleUnmarshalNav content =
     (if content = ''nav'' then (Some sampleLinks, None)
      else if content = ''[{name: A, target: t}, *u]''
      then (Some [\<lparr>Name = ''A'', Target = ''t'', Active = False\<rparr>],
            Some (ErrYaml ''unknown anchor''))
      else if content = ''[]'' then (Some [], None)
      else (None, Some (ErrYaml ''not a list'')))"

lemma sample_nav_file: "Join [''/d'', ''/'', ''navigation.yaml''] = ''/d/navigation.yaml''"
  by code_simp

definition sampleNode :: client_Node where
  "sampleNode = \<lparr>Path = ''/a'', Type = ''document'', Title = ''A'', Created = None,
                  CreatedBy = ''u'', LastUpdate = None, LastUpdateBy = ''u''\<rparr>"

definition sampleMarshalNav :: "navigation \<Rightarrow> error + string" where
  "sampleMarshalNav nav = (if nav = Some sampleLinks then Inr ''nav'' else Inr ''other'')"

definition sampleRender :: "string \<Rightarrow> masterTmplEnv \<Rightarrow> string" where
  "sampleRender body env = Path (envNode env) @ '':'' @ body"

definition sampleQueues :: "string \<rightharpoonup> Ticket list" where
  "sampleQueues = [''document'' \<mapsto> []]"

definition brokenTree :: filesystem where
  "brokenTree = \<lparr>dirs = {''/d''}, files = [''/d/navigation.yaml'' \<mapsto> ''{'']\<rparr>"

definition emptyListTree :: filesystem where
  "emptyListTree = \<lparr>dirs = {''/d''}, files = [''/d/navigation.yaml'' \<mapsto> ''[]'']\<rparr>"

definition lateErrorTree :: filesystem where
  "lateErrorTree =
     \<lparr>dirs = {''/d''}, files = [''/d/navigation.yaml'' \<mapsto> ''[{name: A, target: t}, *u]'']\<rparr>"

definition sampleMarshalNode :: "client_Node \<Rightarrow> error + string" where
  "sampleMarshalNode node = Inr (Title node)"

definition sampleUnmarshalNode :: "string \<Rightarrow> error + client_Node" where
  "sampleUnmarshalNode content = Inr (sampleNode\<lparr>Path := [], Title := content\<rparr>)"

definition writtenTree :: filesystem where
  "writtenTree = \<lparr>dirs = {''/d/a'', ''/d''},
                   files = [''/d/navigation.yaml'' \<mapsto> ''nav'', ''/d/a/node.yaml'' \<mapsto> ''A'']\<rparr>"

section \<open>Marking the active link\<close>

lemma markActive_loop_first:
  "i < length links \<Longrightarrow> Target (links ! i) = active \<Longrightarrow>
   \<forall>j<i. Target (links ! j) \<noteq> active \<Longrightarrow>
   markActive_loop links active = links[i := (links ! i)\<lparr>Active := True\<rparr>]"
proof (induction links arbitrary: i)
  case Nil
  then show ?case by simp
next
  case (Cons link links)
  show ?case
  proof (cases i)
    case 0
    with Cons.prems show ?thesis by simp
  next
    case (Suc k)
    with Cons.prems have "Target link \<noteq> active" by auto
    moreover have "markActive_loop links active = links[k := (links ! k)\<lparr>Active := True\<rparr>]"
      using Cons.prems Suc by (intro Cons.IH) auto
    ultimately show ?thesis using Suc by simp
  qed
qed

lemma getNav_loop_found:
  "ReadFile fs (Join [root, nodePath, ''navigation.yaml'']) = Inr content \<Longrightarrow>
   getNav_loop fs root recursive nodePath hasNav =
     (content, hasNav, if recursive then nodePath else [])"
  by (subst getNav_loop.simps) simp

text \<open>
  C4. When the navigation file of the node is read and decoded to links, and \<open>i\<close> is the first
  index whose target equals the active target, \<^verbatim>\<open>getNav\<close> returns the decoded links with
  the flag of link \<open>i\<close> set and every other link, the later links with the same target
  among them, exactly as decoded.
\<close>

theorem getNav_marks_first_match:
  assumes "ReadFile fs (Join [root, nodePath, ''navigation.yaml'']) = Inr content"
    and "fst (Unmarshal content) = Some links"
    and "i < length links"
    and "Target (links ! i) = active"
    and "\<forall>j<i. Target (links ! j) \<noteq> active"
  shows "fst (getNav Unmarshal fs nodePath active recursive root)
           = Some (links[i := (links ! i)\<lparr>Active := True\<rparr>])
         \<and> (\<forall>k<length links. k \<noteq> i \<longrightarrow>
               elems (fst (getNav Unmarshal fs nodePath active recursive root)) ! k = links ! k)"
proof -
  have m: "markActive_loop links active = links[i := (links ! i)\<lparr>Active := True\<rparr>]"
    using assms(3-5) by (rule markActive_loop_first)
  have "links \<noteq> []" using assms(3) by auto
  then have "fst (getNav Unmarshal fs nodePath active recursive root)
           = Some (links[i := (links ! i)\<lparr>Active := True\<rparr>])"
    using assms(1,2) m
    by (simp add: getNav_def getNav_loop_found markActive_def len_def elems_def)
  then show ?thesis by (simp add: elems_def)
qed

theorem getNav_marks_first_match_witness:
  "fst (getNav sampleUnmarshalNav sampleTree ''/'' ''t'' False ''/d'')
     = Some [\<lparr>Name = ''Home'', Target = ''x'', Active = False\<rparr>,
             \<lparr>Name = ''First'', Target = ''t'', Active = True\<rparr>,
             \<lparr>Name = ''Second'', Target = ''t'', Active = False\<rparr>]"
proof -
  have r: "ReadFile sampleTree (Join [''/d'', ''/'', ''navigation.yaml'']) = Inr ''nav''"
    unfolding sample_nav_file by (simp add: ReadFile_def sampleTree_def)
  have u: "fst (sampleUnmarshalNav ''nav'') = Some sampleLinks"
    by (simp add: sampleUnmarshalNav_def)
  have i: "1 < length sampleLinks" "Target (sampleLinks ! 1) = ''t''"
    "\<forall>j<1. Target (sampleLinks ! j) \<noteq> ''t''"
    by (simp_all add: sampleLinks_def)
  show ?thesis
    using getNav_marks_first_match[where Unmarshal = sampleUnmarshalNav
        and content = "''nav''" and recursive = False, OF r u i]
    by (simp add: sampleLinks_def)
qed

text \<open>
  C10, as amended. When the navigation file of the node itself is read and the decoder
  leaves no link in the navigation, because it fails before a link is decoded or because
  the content decodes to no links, \<^verbatim>\<open>getNav\<close> returns the empty, non-nil navigation;
  \<open>navRoot\<close> is the node path in a recursive search and empty otherwise. The decoder's
  error never surfaces: \<^verbatim>\<open>getNav\<close> does the same with a decoder that returns no error.
\<close>

theorem getNav_no_links_empty:
  assumes "ReadFile fs (Join [root, nodePath, ''navigation.yaml'']) = Inr content"
    and "len (fst (Unmarshal content)) = 0"
  shows "getNav Unmarshal fs nodePath active recursive root
           = (Some [], if recursive then nodePath else [])
         \<and> fst (getNav Unmarshal fs nodePath active recursive root) \<noteq> None
         \<and> getNav (\<lambda>c. (fst (Unmarshal c), None)) fs nodePath active recursive root
             = getNav Unmarshal fs nodePath active recursive root"
proof -
  have "len (markActive (fst (Unmarshal content)) active) = 0"
    using assms(2) by (cases "fst (Unmarshal content)") (auto simp: markActive_def len_def elems_def)
  then have "getNav Unmarshal fs nodePath active recursive root
           = (Some [], if recursive then nodePath else [])"
    using assms(1) by (simp add: getNav_def getNav_loop_found)
  moreover have "getNav (\<lambda>c. (fst (Unmarshal c), None)) fs nodePath active recursive root
             = getNav Unmarshal fs nodePath active recursive root"
    by (simp add: getNav_def)
  ultimately show ?thesis by simp
qed

theorem getNav_no_links_empty_witness:
  "getNav sampleUnmarshalNav brokenTree ''/'' ''t'' True ''/d'' = (Some [], ''/'')
   \<and> snd (sampleUnmarshalNav ''{'') = Some (ErrYaml ''not a list'')
   \<and> getNav sampleUnmarshalNav emptyListTree ''/'' ''t'' False ''/d'' = (Some [], [])
   \<and> snd (sampleUnmarshalNav ''[]'') = None"
proof -
  have r: "ReadFile brokenTree (Join [''/d'', ''/'', ''navigation.yaml'']) = Inr ''{''"
    unfolding sample_nav_file by (simp add: ReadFile_def brokenTree_def)
  have u: "len (fst (sampleUnmarshalNav ''{'')) = 0"
    by (simp add: sampleUnmarshalNav_def len_def elems_def)
  have r': "ReadFile emptyListTree (Join [''/d'', ''/'', ''navigation.yaml'']) = Inr ''[]''"
    unfolding sample_nav_file by (simp add: ReadFile_def emptyListTree_def)
  have u': "len (fst (sampleUnmarshalNav ''[]'')) = 0"
    by (simp add: sampleUnmarshalNav_def len_def elems_def)
  show ?thesis
    using getNav_no_links_empty[where Unmarshal = sampleUnmarshalNav
        and content = "''{''" and recursive = True and active = "''t''", OF r u]
      getNav_no_links_empty[where Unmarshal = sampleUnmarshalNav
        and content = "''[]''" and recursive = False and active = "''t''", OF r' u']
    by (simp add: sampleUnmarshalNav_def)
qed

text \<open>
  C10 as stated fails where the decoder fails late. On a list whose second item is an
  unknown alias the first link is in the navigation when the error is returned, and
  \<^verbatim>\<open>getNav\<close> returns that link, marked, and not the empty navigation.
\<close>

theorem getNav_late_failure_keeps_links:
  "snd (sampleUnmarshalNav ''[{name: A, target: t}, *u]'') = Some (ErrYaml ''unknown anchor'')
   \<and> getNav sampleUnmarshalNav lateErrorTree ''/'' ''t'' False ''/d''
       = (Some [\<lparr>Name = ''A'', Target = ''t'', Active = True\<rparr>], [])"
proof -
  have "ReadFile lateErrorTree (Join [''/d'', ''/'', ''navigation.yaml''])
          = Inr ''[{name: A, target: t}, *u]''"
    unfolding sample_nav_file by (simp add: ReadFile_def lateErrorTree_def)
  then show ?thesis
    by (simp add: getNav_def getNav_loop_found sampleUnmarshalNav_def markActive_def
        len_def elems_def del: Join.simps)
qed

section \<open>Removing links\<close>

lemma Remove_loop_filter:
  "Remove_loop vs target ret = ret @ filter (\<lambda>v. Target v \<noteq> target) vs"
  by (induction vs arbitrary: ret) auto

lemma Remove_nonempty:
  "elems nav \<noteq> [] \<Longrightarrow>
   Remove nav target = Done (Some (filter (\<lambda>v. Target v \<noteq> target) (elems nav)))"
  by (simp add: Remove_def len_def Remove_loop_filter)

text \<open>
  C5. On a navigation without links, nil or empty, \<^verbatim>\<open>Remove\<close> does not return: the
  capacity \<open>len(nav)-1\<close> is \<open>-1\<close> and the allocation panics. (On a navigation with at
  least one link it keeps exactly the links with another target, in order:
  \<open>Remove_nonempty\<close>.)
\<close>

theorem Remove_empty_panics:
  "Remove None target = Panic ''makeslice: cap out of range''
   \<and> Remove (Some []) target = Panic ''makeslice: cap out of range''"
  by (simp add: Remove_def len_def elems_def)

section \<open>Making targets absolute\<close>

definition absoluteTargets :: "navLink list \<Rightarrow> bool" where
  "absoluteTargets links \<longleftrightarrow> (\<forall>link \<in> set links. Target link \<noteq> [] \<and> hd (Target link) = Separator)"

lemma MakeAbsolute_loop_fixed:
  "absoluteTargets links \<Longrightarrow> MakeAbsolute_loop links root = Done links"
  by (induction links) (auto simp: absoluteTargets_def)

lemma MakeAbsolute_loop_absolute:
  assumes "root \<noteq> []" and "hd root = Separator"
  shows "MakeAbsolute_loop links root = Done links' \<Longrightarrow> absoluteTargets links'"
proof (induction links arbitrary: links')
  case Nil
  then show ?case by (simp add: absoluteTargets_def)
next
  case (Cons link links)
  from Cons.prems obtain rest where rest: "MakeAbsolute_loop links root = Done rest"
    and ne: "Target link \<noteq> []"
    and l': "links' = (if hd (Target link) \<noteq> Separator
                        then link\<lparr>Target := Join [root, Target link]\<rparr> else link) # rest"
    by (auto simp: Let_def split: if_splits outcome.splits)
  from Cons.IH[OF rest] have "absoluteTargets rest" .
  moreover have "Join [root, Target link] \<noteq> [] \<and> hd (Join [root, Target link]) = Separator"
    using assms by (rule Join_rooted)
  ultimately show ?case using ne l' by (auto simp: absoluteTargets_def)
qed

text \<open>
  C6, as amended. For a root that begins with the separator, applying \<^verbatim>\<open>MakeAbsolute\<close>
  a second time gives what the first application gave (a panic on an empty target
  included). For any root, a navigation whose targets all begin with the separator is
  returned unchanged.
\<close>

theorem MakeAbsolute_idempotent_for_absolute_root:
  assumes "root \<noteq> []" and "hd root = Separator"
  shows "(case MakeAbsolute nav root of
            Panic msg \<Rightarrow> Panic msg
          | Done nav' \<Rightarrow> MakeAbsolute nav' root) = MakeAbsolute nav root
         \<and> (absoluteTargets (elems nav) \<longrightarrow> MakeAbsolute nav anyRoot = Done nav)"
proof -
  have "(case MakeAbsolute nav root of
            Panic msg \<Rightarrow> Panic msg
          | Done nav' \<Rightarrow> MakeAbsolute nav' root) = MakeAbsolute nav root"
  proof (cases nav)
    case None
    then show ?thesis by (simp add: MakeAbsolute_def)
  next
    case (Some links)
    show ?thesis
    proof (cases "MakeAbsolute_loop links root")
      case (Panic msg)
      with Some show ?thesis by (simp add: MakeAbsolute_def)
    next
      case (Done links')
      then have "absoluteTargets links'" by (rule MakeAbsolute_loop_absolute[OF assms])
      then have "MakeAbsolute_loop links' root = Done links'" by (rule MakeAbsolute_loop_fixed)
      with Some Done show ?thesis by (simp add: MakeAbsolute_def)
    qed
  qed
  moreover have "absoluteTargets (elems nav) \<longrightarrow> MakeAbsolute nav anyRoot = Done nav"
    by (cases nav) (auto simp: MakeAbsolute_def elems_def MakeAbsolute_loop_fixed)
  ultimately show ?thesis by simp
qed

lemma sample_cleans:
  "Clean ''/a/t'' = ''/a/t''"
  "Clean ''a/b'' = ''a/b''"
  "Clean ''a/a/b'' = ''a/a/b''"
  by code_simp+

theorem MakeAbsolute_idempotent_for_absolute_root_witness:
  "MakeAbsolute (Some [\<lparr>Name = ''First'', Target = ''t'', Active = False\<rparr>]) ''/a''
     = Done (Some [\<lparr>Name = ''First'', Target = ''/a/t'', Active = False\<rparr>])
   \<and> MakeAbsolute (Some [\<lparr>Name = ''First'', Target = ''/a/t'', Active = False\<rparr>]) ''/a''
     = Done (Some [\<lparr>Name = ''First'', Target = ''/a/t'', Active = False\<rparr>])"
proof -
  have once: "MakeAbsolute (Some [\<lparr>Name = ''First'', Target = ''t'', Active = False\<rparr>]) ''/a''
     = Done (Some [\<lparr>Name = ''First'', Target = ''/a/t'', Active = False\<rparr>])"
    by (simp add: MakeAbsolute_def sample_cleans)
  have r: "''/a'' \<noteq> []" "hd ''/a'' = Separator" by simp_all
  from MakeAbsolute_idempotent_for_absolute_root[OF r,
      of "Some [\<lparr>Name = ''First'', Target = ''t'', Active = False\<rparr>]"] once
  show ?thesis by simp
qed

text \<open>
  C6 as stated fails for a relative root: with root \<open>a\<close> the target \<open>b\<close> becomes \<open>a/b\<close>,
  which is still relative, and the second application makes it \<open>a/a/b\<close>.
\<close>

theorem MakeAbsolute_relative_root_not_idempotent:
  "(case MakeAbsolute (Some [\<lparr>Name = ''n'', Target = ''b'', Active = False\<rparr>]) ''a'' of
      Panic msg \<Rightarrow> Panic msg
    | Done nav' \<Rightarrow> MakeAbsolute nav' ''a'')
   \<noteq> MakeAbsolute (Some [\<lparr>Name = ''n'', Target = ''b'', Active = False\<rparr>]) ''a''"
  by (simp add: MakeAbsolute_def sample_cleans)

section \<open>Writing the navigation\<close>

lemma clearActive_inactive: "\<forall>link \<in> set (elems (clearActive nav)). \<not> Active link"
  by (cases nav) (auto simp: clearActive_def elems_def)

lemma clearActive_idem: "clearActive (clearActive nav) = clearActive nav"
  by (cases nav) (auto simp: clearActive_def)

text \<open>
  C7. Whenever \<^verbatim>\<open>Dump\<close> returns, the content it has written to the navigation file is
  the encoding of the navigation with every flag cleared; no link of that navigation is
  active, and the flags of the navigation passed in make no difference to what \<^verbatim>\<open>Dump\<close>
  does.
\<close>

theorem Dump_clears_active:
  assumes "Dump Marshal nav nodePath root fs = Done (fs', nav')"
  shows "(\<exists>content. Marshal (clearActive nav) = Inr content
            \<and> files fs' (Join [root, tl nodePath, ''navigation.yaml'']) = Some content)
         \<and> nav' = clearActive nav
         \<and> (\<forall>link \<in> set (elems nav'). \<not> Active link)
         \<and> Dump Marshal (clearActive nav) nodePath root fs = Dump Marshal nav nodePath root fs"
proof -
  from assms obtain content where m: "Marshal (clearActive nav) = Inr content"
    by (auto simp: Dump_def Let_def split: sum.splits)
  let ?file = "Join [root, tl nodePath, ''navigation.yaml'']"
  from assms m have w: "WriteFile fs ?file content = (fs', None)" and n: "nav' = clearActive nav"
    by (auto simp: Dump_def Let_def split: if_splits prod.splits option.splits)
  from w have "files fs' ?file = Some content"
    by (auto simp: WriteFile_def split: if_splits)
  moreover have "Dump Marshal (clearActive nav) nodePath root fs = Dump Marshal nav nodePath root fs"
    by (simp add: Dump_def clearActive_idem)
  ultimately show ?thesis using m n clearActive_inactive[of nav] by blast
qed

lemma sample_dump_file: "Join [''/d'', tl ''/'', ''navigation.yaml''] = ''/d/navigation.yaml''"
  by code_simp

lemma sample_dump_dir: "Dir ''/d/navigation.yaml'' = ''/d''"
  by code_simp

theorem Dump_clears_active_witness:
  "Dump sampleMarshalNav (markActive (Some sampleLinks) ''t'') ''/'' ''/d'' sampleTree
     = Done (sampleTree\<lparr>files := (files sampleTree)(''/d/navigation.yaml'' \<mapsto> ''nav'')\<rparr>,
             Some sampleLinks)
   \<and> sampleMarshalNav (clearActive (markActive (Some sampleLinks) ''t'')) = Inr ''nav''
   \<and> map Active sampleLinks = [False, False, False]"
proof -
  have c: "clearActive (markActive (Some sampleLinks) ''t'') = Some sampleLinks"
    by (simp add: clearActive_def markActive_def sampleLinks_def)
  have w: "WriteFile sampleTree ''/d/navigation.yaml'' ''nav''
             = (sampleTree\<lparr>files := (files sampleTree)(''/d/navigation.yaml'' \<mapsto> ''nav'')\<rparr>, None)"
    unfolding WriteFile_def sample_dump_dir by (simp add: sampleTree_def)
  have d: "Dump sampleMarshalNav (markActive (Some sampleLinks) ''t'') ''/'' ''/d'' sampleTree
        = Done (sampleTree\<lparr>files := (files sampleTree)(''/d/navigation.yaml'' \<mapsto> ''nav'')\<rparr>,
                Some sampleLinks)"
    unfolding Dump_def c sample_dump_file Let_def by (simp add: sampleMarshalNav_def w)
  from Dump_clears_active[OF d] d show ?thesis
    by (simp add: sampleMarshalNav_def c elems_def sampleLinks_def)
qed

section \<open>The walk to the root\<close>

lemma ancestors_nonempty: "ancestors p \<noteq> []"
  by (subst ancestors.simps) simp

lemma ancestors_last: "Dir (last (ancestors p)) = last (ancestors p)"
proof (induction p rule: ancestors.induct)
  case (1 path)
  show ?case
  proof (cases "path = Dir path")
    case True
    then have "ancestors path = [path]" by (subst ancestors.simps) simp
    with True show ?thesis by simp
  next
    case False
    then have "ancestors path = path # ancestors (Dir path)" by (subst ancestors.simps) simp
    with 1[OF False] show ?thesis by (simp add: ancestors_nonempty)
  qed
qed

lemma ancestors_butlast: "\<forall>q \<in> set (butlast (ancestors p)). Dir q \<noteq> q"
proof (induction p rule: ancestors.induct)
  case (1 path)
  show ?case
  proof (cases "path = Dir path")
    case True
    then have "ancestors path = [path]" by (subst ancestors.simps) simp
    then show ?thesis by simp
  next
    case False
    then have "ancestors path = path # ancestors (Dir path)" by (subst ancestors.simps) simp
    with 1[OF False] False show ?thesis by (auto simp: ancestors_nonempty)
  qed
qed

lemma getSidebar_walk:
  "\<forall>p \<in> set (ancestors path). isl (ReadFile fs (Join [root, p, ''sidebar.html''])) \<Longrightarrow>
   getSidebar fs path root = [] \<and> sidebarProbes fs path root = ancestors path"
proof (induction path rule: ancestors.induct)
  case (1 path)
  have "path \<in> set (ancestors path)" by (subst ancestors.simps) simp
  with "1.prems" obtain err where err: "ReadFile fs (Join [root, path, ''sidebar.html'']) = Inl err"
    by (auto simp: isl_def)
  show ?case
  proof (cases "path = Dir path")
    case True
    then have "ancestors path = [path]" by (subst ancestors.simps) simp
    moreover from True err have "getSidebar fs path root = []"
      by (subst getSidebar.simps) simp
    moreover from True err have "sidebarProbes fs path root = [path]"
      by (subst sidebarProbes.simps) simp
    ultimately show ?thesis by simp
  next
    case False
    then have a: "ancestors path = path # ancestors (Dir path)" by (subst ancestors.simps) simp
    with "1.prems" have "\<forall>p \<in> set (ancestors (Dir path)).
        isl (ReadFile fs (Join [root, p, ''sidebar.html'']))" by simp
    from "1.IH"[OF False this]
    have ih: "getSidebar fs (Dir path) root = []"
      "sidebarProbes fs (Dir path) root = ancestors (Dir path)" by simp_all
    from False err ih(1) have "getSidebar fs path root = []"
      by (subst getSidebar.simps) simp
    moreover from False err ih(2) have "sidebarProbes fs path root = path # ancestors (Dir path)"
      by (subst sidebarProbes.simps) simp
    ultimately show ?thesis using a by simp
  qed
qed

text \<open>
  C3. \<^verbatim>\<open>getSidebar\<close> is a total function: the walk ends for every path. When no sidebar
  file can be read at the path or at any of its ancestors, the result is the empty
  string, the paths probed are exactly the ancestors, the last path probed is its own
  parent, and no earlier one is.
\<close>

theorem getSidebar_none_after_walk_to_root:
  assumes "\<forall>p \<in> set (ancestors path). isl (ReadFile fs (Join [root, p, ''sidebar.html'']))"
  shows "getSidebar fs path root = []
         \<and> sidebarProbes fs path root = ancestors path
         \<and> Dir (last (sidebarProbes fs path root)) = last (sidebarProbes fs path root)
         \<and> (\<forall>q \<in> set (butlast (sidebarProbes fs path root)). Dir q \<noteq> q)"
  using getSidebar_walk[OF assms] ancestors_last[of path] ancestors_butlast[of path]
  by simp

lemma sample_ancestors: "ancestors ''/a/b'' = [''/a/b'', ''/a'', ''/'']"
  by code_simp

lemma sample_sidebar_files:
  "Join [''/d'', ''/a/b'', ''sidebar.html''] = ''/d/a/b/sidebar.html''"
  "Join [''/d'', ''/a'', ''sidebar.html''] = ''/d/a/sidebar.html''"
  "Join [''/d'', ''/'', ''sidebar.html''] = ''/d/sidebar.html''"
  by code_simp+

theorem getSidebar_none_after_walk_to_root_witness:
  "getSidebar sampleTree ''/a/b'' ''/d'' = []
   \<and> sidebarProbes sampleTree ''/a/b'' ''/d'' = [''/a/b'', ''/a'', ''/'']"
proof -
  have "\<forall>p \<in> set (ancestors ''/a/b'').
          isl (ReadFile sampleTree (Join [''/d'', p, ''sidebar.html'']))"
    unfolding sample_ancestors
    by (simp only: list.set ball_simps sample_sidebar_files)
       (simp add: ReadFile_def sampleTree_def)
  from getSidebar_none_after_walk_to_root[OF this] show ?thesis
    by (simp add: sample_ancestors)
qed

section \<open>Writing and reading a node\<close>

lemma WriteFile_ok:
  "WriteFile fs name content = (fs', None) \<Longrightarrow> ReadFile fs' name = Inr content"
  by (auto simp: WriteFile_def ReadFile_def split: if_splits)

lemma writeNode_ok:
  assumes "writeNode Marshal fs node root = Done (fs', None)"
  shows "Path node \<noteq> []
         \<and> (\<exists>content. Marshal (node\<lparr>Path := []\<rparr>) = Inr content
               \<and> ReadFile fs' (Join [root, tl (Path node), ''node.yaml'']) = Inr content)"
proof -
  from assms obtain content where m: "Marshal (node\<lparr>Path := []\<rparr>) = Inr content"
    by (auto simp: writeNode_def Let_def split: sum.splits)
  with assms have ne: "Path node \<noteq> []"
    by (auto simp: writeNode_def Let_def split: if_splits)
  let ?file = "Join [root, tl (Path node), ''node.yaml'']"
  from assms m ne obtain fs1 where "WriteFile fs1 ?file content = (fs', None)"
    by (auto simp: writeNode_def Let_def simp del: Join.simps
        split: if_splits prod.splits option.splits)
  then have "ReadFile fs' ?file = Inr content" by (rule WriteFile_ok)
  with m ne show ?thesis by blast
qed

lemma lookupNode_path:
  "lookupNode decode fs root p = Done (Inr n) \<Longrightarrow> Path n = p"
  by (auto simp: lookupNode_def simp del: Join.simps split: if_splits sum.splits)

text \<open>
  C2. When \<^verbatim>\<open>writeNode\<close> has written a node without error, and the decoder gives back
  what the encoder was given, \<^verbatim>\<open>lookupNode\<close> at the node's path returns the node.
  The content of the file is the encoding of the node with its path emptied, so the path
  is not stored; and whatever is decoded, the path of a node that \<^verbatim>\<open>lookupNode\<close>
  returns is the path it was asked for, so the path is not read back.
\<close>

theorem writeNode_then_lookupNode:
  assumes "writeNode Marshal fs node root = Done (fs', None)"
    and "\<forall>content. Marshal (node\<lparr>Path := []\<rparr>) = Inr content
           \<longrightarrow> Unmarshal content = Inr (node\<lparr>Path := []\<rparr>)"
  shows "lookupNode Unmarshal fs' root (Path node) = Done (Inr node)
         \<and> (\<exists>content. Marshal (node\<lparr>Path := []\<rparr>) = Inr content
               \<and> files fs' (Join [root, tl (Path node), ''node.yaml'']) = Some content)
         \<and> (\<forall>decode p n. lookupNode decode fs' root p = Done (Inr n) \<longrightarrow> Path n = p)"
proof -
  let ?file = "Join [root, tl (Path node), ''node.yaml'']"
  from writeNode_ok[OF assms(1)] obtain content where ne: "Path node \<noteq> []"
    and m: "Marshal (node\<lparr>Path := []\<rparr>) = Inr content"
    and r: "ReadFile fs' ?file = Inr content" by blast
  from assms(2) m have u: "Unmarshal content = Inr (node\<lparr>Path := []\<rparr>)" by simp
  have "lookupNode Unmarshal fs' root (Path node) = Done (Inr node)"
    unfolding lookupNode_def using ne r u by simp
  moreover from r have "files fs' ?file = Some content"
    by (auto simp: ReadFile_def split: option.splits)
  ultimately show ?thesis using m lookupNode_path by blast
qed

lemma sample_node_paths:
  "Clean ''/d/a/node.yaml'' = ''/d/a/node.yaml''"
  "Dir ''/d/a/node.yaml'' = ''/d/a''"
  "Dir ''/d/a'' = ''/d''"
  "Clean ''/d/a/b/node.yaml'' = ''/d/a/b/node.yaml''"
  "Dir ''/d/a/b/node.yaml'' = ''/d/a/b''"
  "Dir ''/d/a/b'' = ''/d/a''"
  by code_simp+

lemma sample_write:
  "writeNode sampleMarshalNode sampleTree sampleNode ''/d'' = Done (writtenTree, None)"
  by (simp add: writeNode_def sampleMarshalNode_def sampleNode_def Let_def sample_node_paths
      Mkdir_def WriteFile_def IsExist_def sampleTree_def writtenTree_def)

theorem writeNode_then_lookupNode_witness:
  "writeNode sampleMarshalNode sampleTree sampleNode ''/d'' = Done (writtenTree, None)
   \<and> lookupNode sampleUnmarshalNode writtenTree ''/d'' ''/a'' = Done (Inr sampleNode)"
proof -
  have codec: "\<forall>content. sampleMarshalNode (sampleNode\<lparr>Path := []\<rparr>) = Inr content
           \<longrightarrow> sampleUnmarshalNode content = Inr (sampleNode\<lparr>Path := []\<rparr>)"
    by (simp add: sampleMarshalNode_def sampleUnmarshalNode_def sampleNode_def)
  from writeNode_then_lookupNode[OF sample_write codec] sample_write
  show ?thesis by (simp add: sampleNode_def)
qed

text \<open>
  C9, as amended. \<^verbatim>\<open>writeNode\<close> returns the encoder's error; when the node's directory
  exists it writes the file without an error about the directory, and returns the
  error of a failed write; when the directory is absent and its parent exists it
  creates that one directory and writes the file; when the directory cannot be created
  for another reason than its existence it panics.
\<close>

theorem writeNode_one_directory_level:
  assumes "file = Join [root, tl (Path node), ''node.yaml'']"
    and "dir = Dir file"
  shows "(Marshal (node\<lparr>Path := []\<rparr>) = Inl err
            \<longrightarrow> writeNode Marshal fs node root = Done (fs, Some err))
       \<and> (Marshal (node\<lparr>Path := []\<rparr>) = Inr content \<and> Path node \<noteq> [] \<longrightarrow>
            (dir \<in> dirs fs \<and> file \<notin> dirs fs
               \<longrightarrow> writeNode Marshal fs node root
                     = Done (fs\<lparr>files := (files fs)(file \<mapsto> content)\<rparr>, None))
          \<and> (dir \<in> dirs fs \<and> file \<in> dirs fs
               \<longrightarrow> writeNode Marshal fs node root = Done (fs, Some ErrIsDir))
          \<and> (dir \<notin> dirs fs \<and> dir \<notin> dom (files fs) \<and> Dir dir \<in> dirs fs \<and> file \<notin> dirs fs
               \<longrightarrow> writeNode Marshal fs node root
                     = Done (fs\<lparr>dirs := insert dir (dirs fs),
                                files := (files fs)(file \<mapsto> content)\<rparr>, None))
          \<and> (dir \<notin> dirs fs \<and> dir \<notin> dom (files fs) \<and> Dir dir \<notin> dirs fs
               \<longrightarrow> writeNode Marshal fs node root
                     = Panic ''Can't create directory for new node: ''))"
proof -
  have neq: "file \<noteq> dir"
    using node_file_not_own_parent[of root "tl (Path node)"] assms by simp
  have a: "Marshal (node\<lparr>Path := []\<rparr>) = Inl err
            \<longrightarrow> writeNode Marshal fs node root = Done (fs, Some err)"
    by (simp add: writeNode_def Let_def)
  have b: "writeNode Marshal fs node root
             = Done (fs\<lparr>files := (files fs)(file \<mapsto> content)\<rparr>, None)"
    if "Marshal (node\<lparr>Path := []\<rparr>) = Inr content" "Path node \<noteq> []"
       "dir \<in> dirs fs" "file \<notin> dirs fs"
    using that assms
    by (simp add: writeNode_def Let_def Mkdir_def WriteFile_def IsExist_def del: Join.simps)
  have c: "writeNode Marshal fs node root = Done (fs, Some ErrIsDir)"
    if "Marshal (node\<lparr>Path := []\<rparr>) = Inr content" "Path node \<noteq> []"
       "dir \<in> dirs fs" "file \<in> dirs fs"
    using that assms
    by (simp add: writeNode_def Let_def Mkdir_def WriteFile_def IsExist_def del: Join.simps)
  have d: "writeNode Marshal fs node root
             = Done (fs\<lparr>dirs := insert dir (dirs fs),
                        files := (files fs)(file \<mapsto> content)\<rparr>, None)"
    if "Marshal (node\<lparr>Path := []\<rparr>) = Inr content" "Path node \<noteq> []"
       "dir \<notin> dirs fs" "dir \<notin> dom (files fs)" "Dir dir \<in> dirs fs" "file \<notin> dirs fs"
    using that assms neq
    by (auto simp: writeNode_def Let_def Mkdir_def WriteFile_def IsExist_def domIff
        simp del: Join.simps)
  have e: "writeNode Marshal fs node root = Panic ''Can't create directory for new node: ''"
    if "Marshal (node\<lparr>Path := []\<rparr>) = Inr content" "Path node \<noteq> []"
       "dir \<notin> dirs fs" "dir \<notin> dom (files fs)" "Dir dir \<notin> dirs fs"
    using that assms
    by (auto simp: writeNode_def Let_def Mkdir_def WriteFile_def IsExist_def absentError_def
        domIff simp del: Join.simps)
  from a b c d e show ?thesis by blast
qed

theorem writeNode_one_directory_level_witness:
  "writeNode sampleMarshalNode sampleTree sampleNode ''/d'' = Done (writtenTree, None)
   \<and> writeNode sampleMarshalNode writtenTree sampleNode ''/d'' = Done (writtenTree, None)"
proof -
  have f: "''/d/a/node.yaml'' = Join [''/d'', tl (Path sampleNode), ''node.yaml'']"
    by (simp add: sampleNode_def sample_node_paths)
  have d: "''/d/a'' = Dir ''/d/a/node.yaml''"
    by (simp add: sample_node_paths)
  note t = writeNode_one_directory_level[where Marshal = sampleMarshalNode
      and node = sampleNode and root = "''/d''" and content = "''A''", OF f d]
  have "writtenTree = sampleTree\<lparr>dirs := insert ''/d/a'' (dirs sampleTree),
            files := (files sampleTree)(''/d/a/node.yaml'' \<mapsto> ''A'')\<rparr>"
    by (auto simp: writtenTree_def sampleTree_def)
  moreover have "writtenTree = writtenTree\<lparr>files := (files writtenTree)(''/d/a/node.yaml'' \<mapsto> ''A'')\<rparr>"
    by (auto simp: writtenTree_def)
  ultimately show ?thesis
    using t[where fs = sampleTree] t[where fs = writtenTree]
    by (simp add: sampleMarshalNode_def sampleNode_def sampleTree_def writtenTree_def
        sample_node_paths)
qed

text \<open>
  C9 as stated fails where an intermediate directory is missing: for the node \<open>/a/b\<close>
  in a data directory without \<open>/a\<close>, nothing is created and \<^verbatim>\<open>writeNode\<close> panics.
\<close>

theorem writeNode_missing_parent_panics:
  "writeNode sampleMarshalNode sampleTree (sampleNode\<lparr>Path := ''/a/b''\<rparr>) ''/d''
     = Panic ''Can't create directory for new node: ''"
  by (simp add: writeNode_def sampleMarshalNode_def sampleNode_def Let_def sample_node_paths
      Mkdir_def IsExist_def absentError_def sampleTree_def)

section \<open>The worker's response\<close>

lemma Path_responseNode: "Path (responseNode res node) = Path node"
  by (simp add: responseNode_def Let_def split: option.splits)

text \<open>
  C8. The node that \<^verbatim>\<open>ProcessNodeResponse\<close> uses after a response has the path of the
  original node; when the response carries a node, it is that node with the path
  replaced. The renderer never sees another path: forcing the path in the environment
  it receives changes nothing.
\<close>

theorem response_keeps_original_path:
  "Path (responseNode res node) = Path node
   \<and> (\<forall>resNode. Node res = Some resNode \<longrightarrow> responseNode res node = resNode\<lparr>Path := Path node\<rparr>)
   \<and> ProcessNodeResponse renderInMaster editTitle saved res node action
       = ProcessNodeResponse
           (\<lambda>body env. renderInMaster body (env\<lparr>envNode := (envNode env)\<lparr>Path := Path node\<rparr>\<rparr>))
           editTitle saved res node action"
proof -
  have same: "(responseNode res node)\<lparr>Path := Path node\<rparr> = responseNode res node"
    by (simp add: responseNode_def Let_def split: option.splits)
  have "ProcessNodeResponse renderInMaster editTitle saved res node action
       = ProcessNodeResponse
           (\<lambda>body env. renderInMaster body (env\<lparr>envNode := (envNode env)\<lparr>Path := Path node\<rparr>\<rparr>))
           editTitle saved res node action"
    by (simp add: ProcessNodeResponse_def Let_def same split: option.splits)
  moreover have "\<forall>resNode. Node res = Some resNode
      \<longrightarrow> responseNode res node = resNode\<lparr>Path := Path node\<rparr>"
    by (simp add: responseNode_def)
  ultimately show ?thesis by (simp add: Path_responseNode)
qed

theorem response_keeps_original_path_witness:
  "ProcessNodeResponse sampleRender id None
     \<lparr>Body = ''b'', Redirect = [], Raw = False, Node = Some (sampleNode\<lparr>Path := ''/elsewhere''\<rparr>)\<rparr>
     sampleNode ''view''
   = Done (HttpContent ''/a:b'')"
  using response_keeps_original_path[of
      "\<lparr>Body = ''b'', Redirect = [], Raw = False, Node = Some (sampleNode\<lparr>Path := ''/elsewhere''\<rparr>)\<rparr>"
      sampleNode sampleRender id None "''view''"]
  by (simp add: ProcessNodeResponse_def sampleRender_def sampleNode_def Let_def)

lemma ProcessNodeResponse_zero:
  "ProcessNodeResponse renderInMaster editTitle saved zeroResponse node action
     = Done (HttpError ''Application error.'' 500)"
  by (simp add: ProcessNodeResponse_def zeroResponse_def)

text \<open>
  C1, as amended. When the node type has a queue and the response channel is closed
  without a value, the receive yields the zero response and \<^verbatim>\<open>RequestNode\<close> answers with
  the status 500 and the text \<open>Application error.\<close>: a failure, never content or a
  redirect, and the same answer as for a response sent with neither body nor redirect.
\<close>

theorem RequestNode_closed_is_application_error:
  assumes "NodeQueues (Type node) = Some queue"
  shows "RequestNode renderInMaster editTitle saved NodeQueues Closed node action site
           = Done (HttpError ''Application error.'' 500)
         \<and> RequestNode renderInMaster editTitle saved NodeQueues Closed node action site
           = RequestNode renderInMaster editTitle saved NodeQueues (Sent zeroResponse) node action site"
  using assms
  by (simp add: RequestNode_def QueueTicket_def Let_def receive_def ProcessNodeResponse_zero)

theorem RequestNode_closed_is_application_error_witness:
  "RequestNode sampleRender id None sampleQueues Closed sampleNode ''view'' ''site''
     = Done (HttpError ''Application error.'' 500)"
proof -
  have "sampleQueues (Type sampleNode) = Some []"
    by (simp add: sampleQueues_def sampleNode_def)
  from RequestNode_closed_is_application_error[where NodeQueues = sampleQueues
      and node = sampleNode, OF this]
  show ?thesis by simp
qed

text \<open>
  C1 as stated asks for an outcome of its own. The closed channel and a response that
  a live worker sends with neither body nor redirect give the same result.
\<close>

theorem RequestNode_closed_not_distinct:
  "RequestNode sampleRender id None sampleQueues Closed sampleNode ''view'' ''site''
     = RequestNode sampleRender id None sampleQueues
         (Sent \<lparr>Body = [], Redirect = [], Raw = False, Node = None\<rparr>) sampleNode ''view'' ''site''"
  by (simp add: RequestNode_def QueueTicket_def Let_def receive_def zeroResponse_def
      sampleQueues_def sampleNode_def)

end
